theory Spec2Isabelle
  imports Main
begin

section \<open>Text model\<close>

text \<open>
  A Python \<open>str\<close> is a sequence of code points. The texts of this development are
  sequences of code points below 256 (ASCII and the Latin-1 supplement), one
  \<^typ>\<open>char\<close> per code point, so \<^const>\<open>length\<close> is Python's \<open>len\<close>. The character
  tables below are the Unicode ones restricted to that range.
\<close>

definition code_point :: "char \<Rightarrow> nat" where
  "code_point c = of_char c"

text \<open>
  The word characters of the \<open>re\<close> module for \<open>str\<close> patterns (\<open>\w\<close>): the
  alphanumeric code points and the underscore.
\<close>

definition is_word_char :: "char \<Rightarrow> bool" where
  "is_word_char c =
     (let n = code_point c in
        (48 \<le> n \<and> n \<le> 57) \<or> (65 \<le> n \<and> n \<le> 90) \<or> n = 95 \<or> (97 \<le> n \<and> n \<le> 122) \<or>
        n = 170 \<or> n = 178 \<or> n = 179 \<or> n = 181 \<or> n = 185 \<or> n = 186 \<or>
        (188 \<le> n \<and> n \<le> 190) \<or> (192 \<le> n \<and> n \<le> 214) \<or> (216 \<le> n \<and> n \<le> 246) \<or>
        (248 \<le> n \<and> n \<le> 255))"

text \<open>Lower-casing of one code point: the upper-case letters are moved by 32.\<close>

definition char_lower :: "char \<Rightarrow> char" where
  "char_lower c =
     (let n = code_point c in
        if (65 \<le> n \<and> n \<le> 90) \<or> (192 \<le> n \<and> n \<le> 214) \<or> (216 \<le> n \<and> n \<le> 222)
        then char_of (n + 32) else c)"

text \<open>\<open>text.lower()\<close>\<close>

definition str_lower :: "string \<Rightarrow> string" where
  "str_lower s = map char_lower s"

text \<open>
  \<open>re.findall(r'\w+', s)\<close>: the search skips to the next word character, the greedy
  \<open>\w+\<close> takes the whole run of word characters, and the search resumes behind it.
\<close>

function re_findall_w :: "string \<Rightarrow> string list" where
  "re_findall_w s =
     (case dropWhile (\<lambda>c. \<not> is_word_char c) s of
        [] \<Rightarrow> []
      | c # cs \<Rightarrow> (c # takeWhile is_word_char cs) # re_findall_w (dropWhile is_word_char cs))"
  by pat_completeness auto
termination
proof (relation "measure length", goal_cases)
  case 1
  show ?case by simp
next
  case (2 s c cs)
  have "length (dropWhile is_word_char cs) \<le> length cs"
    by (rule length_dropWhile_le)
  moreover have "length (c # cs) \<le> length s"
    using length_dropWhile_le [of "\<lambda>c. \<not> is_word_char c" s] 2 by simp
  ultimately show ?case by simp
qed

declare re_findall_w.simps [simp del]

text \<open>
  \<open>text.splitlines()\<close>: the text is cut at every line boundary (\<open>\n\<close>, \<open>\r\<close>, \<open>\r\n\<close>
  as one boundary, \<open>\v\<close>, \<open>\f\<close>, the separators \<open>\x1c\<close>, \<open>\x1d\<close>, \<open>\x1e\<close> and
  \<open>\x85\<close>); the boundaries are dropped and nothing follows the last boundary when the
  text ends there. The first argument is the current line, reversed.
\<close>

definition is_linebreak :: "char \<Rightarrow> bool" where
  "is_linebreak c =
     (let n = code_point c in (10 \<le> n \<and> n \<le> 13) \<or> (28 \<le> n \<and> n \<le> 30) \<or> n = 133)"

fun splitlines_from :: "string \<Rightarrow> string \<Rightarrow> string list" where
  "splitlines_from cur [] = (if cur = [] then [] else [rev cur])"
| "splitlines_from cur [c] = (if is_linebreak c then [rev cur] else [rev (c # cur)])"
| "splitlines_from cur (c # d # cs) =
     (if code_point c = 13 \<and> code_point d = 10 then rev cur # splitlines_from [] cs
      else if is_linebreak c then rev cur # splitlines_from [] (d # cs)
      else splitlines_from (c # cur) (d # cs))"

definition str_splitlines :: "string \<Rightarrow> string list" where
  "str_splitlines s = splitlines_from [] s"

section \<open>Counters\<close>

definition count_words :: "string \<Rightarrow> nat" where
  "count_words text = (let words = re_findall_w (str_lower text) in length words)"

definition count_chars :: "string \<Rightarrow> nat" where
  "count_chars text = length text"

definition count_lines :: "string \<Rightarrow> nat" where
  "count_lines text = length (str_splitlines text)"


section \<open>WordFinder\<close>

text \<open>
  \<open>collections.Counter\<close>: a dictionary from keys to counts that keeps the keys in the
  order of their first insertion, here a list of pairs with distinct keys. Reading a
  missing key gives 0.
\<close>

fun counter_add :: "string \<Rightarrow> (string \<times> nat) list \<Rightarrow> (string \<times> nat) list" where
  "counter_add w [] = [(w, 1)]"
| "counter_add w ((k, n) # kvs) =
     (if k = w then (k, Suc n) # kvs else (k, n) # counter_add w kvs)"

definition Counter :: "string list \<Rightarrow> (string \<times> nat) list" where
  "Counter ws = foldl (\<lambda>c w. counter_add w c) [] ws"

definition counter_get :: "(string \<times> nat) list \<Rightarrow> string \<Rightarrow> nat" where
  "counter_get c w = (case map_of c w of None \<Rightarrow> 0 | Some n \<Rightarrow> n)"

text \<open>The result is the dictionary \<open>{word: count}\<close> with its single entry.\<close>

definition find_word :: "string \<Rightarrow> string \<Rightarrow> (string \<times> nat) list" where
  "find_word text word =
     (let words = re_findall_w (str_lower text);
          word_counts = Counter words
      in [(word, counter_get word_counts (str_lower word))])"

section \<open>FrequencyRanker\<close>

text \<open>
  \<open>Counter.most_common(n)\<close> is \<open>heapq.nlargest(n, items, key=count)\<close>: the first \<open>n\<close>
  items of the stable sort by descending count, and no item when \<open>n\<close> is not positive.
\<close>

definition most_common :: "int \<Rightarrow> (string \<times> nat) list \<Rightarrow> (string \<times> nat) list" where
  "most_common n c = take (nat n) (sort_key (\<lambda>(w, k). - int k) c)"

definition get_word_frequency :: "string \<Rightarrow> int \<Rightarrow> (string \<times> nat) list" where
  "get_word_frequency text top_n =
     (let words = re_findall_w (str_lower text) in most_common top_n (Counter words))"

section \<open>WordReplacer\<close>

subsection \<open>The pattern\<close>

text \<open>
  The compiled pattern is \<open>\b\<close>, the escaped old word, \<open>\b\<close>, with \<open>re.IGNORECASE\<close>.
  \<open>re.escape\<close> makes every character of the old word a literal, and a literal matches
  a character of the text when the two agree after lower-casing. \<open>\b\<close> holds between
  two positions when exactly one of the characters around it is a word character; the
  edges of the text count as non-word. The character before the current position is
  passed along as an option.
\<close>

definition is_word_opt :: "char option \<Rightarrow> bool" where
  "is_word_opt p = (case p of None \<Rightarrow> False | Some c \<Rightarrow> is_word_char c)"

definition at_boundary :: "char option \<Rightarrow> string \<Rightarrow> bool" where
  "at_boundary prev rest =
     (is_word_opt prev \<noteq> is_word_opt (case rest of [] \<Rightarrow> None | c # _ \<Rightarrow> Some c))"

definition match_here :: "string \<Rightarrow> char option \<Rightarrow> string \<Rightarrow> bool" where
  "match_here old_word prev text =
     (let m = take (length old_word) text;
          rest = drop (length old_word) text
      in at_boundary prev text \<and>
         map char_lower m = map char_lower old_word \<and>
         at_boundary (if m = [] then prev else Some (last m)) rest)"

text \<open>
  The search loop of \<open>re.subn\<close>: the text is cut into the characters that are kept and
  the matches, leftmost first and not overlapping. After an empty match the next
  search has to advance, so the character behind it is kept.
\<close>

datatype piece = Kept char | Matched string

fun re_scan :: "string \<Rightarrow> char option \<Rightarrow> string \<Rightarrow> piece list" where
  "re_scan old_word prev [] = (if match_here old_word prev [] then [Matched []] else [])"
| "re_scan old_word prev (c # cs) =
     (if match_here old_word prev (c # cs) then
        (if old_word = [] then Matched [] # Kept c # re_scan old_word (Some c) cs
         else Matched (take (length old_word) (c # cs)) #
              re_scan old_word (Some (last (take (length old_word) (c # cs))))
                (drop (length old_word - 1) cs))
      else Kept c # re_scan old_word (Some c) cs)"

subsection \<open>The replacement template\<close>

text \<open>
  A replacement string without a backslash is inserted as it is. One with a backslash
  goes through the template compiler of the \<open>re\<close> module (as of CPython 3.12), which
  reads escapes and group references and raises on the ones it does not know. The
  pattern has no group of its own, so the only valid reference is \<open>\g<0>\<close>, the
  match itself.
\<close>

datatype repl_item = Literal char | Group0

definition backslash :: char where
  "backslash = CHR 0x5C"

definition is_digit :: "char \<Rightarrow> bool" where
  "is_digit c = (48 \<le> code_point c \<and> code_point c \<le> 57)"

definition is_octdigit :: "char \<Rightarrow> bool" where
  "is_octdigit c = (48 \<le> code_point c \<and> code_point c \<le> 55)"

definition is_ascii_letter :: "char \<Rightarrow> bool" where
  "is_ascii_letter c =
     (let n = code_point c in (65 \<le> n \<and> n \<le> 90) \<or> (97 \<le> n \<and> n \<le> 122))"

definition digit_value :: "char \<Rightarrow> nat" where
  "digit_value c = code_point c - 48"

text \<open>The table \<open>ESCAPES\<close>: \<open>\a \b \f \n \r \t \v \\\<close>.\<close>

definition escapes :: "char \<Rightarrow> char option" where
  "escapes c =
     (if c = CHR ''a'' then Some (CHR 0x07)
      else if c = CHR ''b'' then Some (CHR 0x08)
      else if c = CHR ''f'' then Some (CHR 0x0C)
      else if c = CHR ''n'' then Some (CHR 0x0A)
      else if c = CHR ''r'' then Some (CHR 0x0D)
      else if c = CHR ''t'' then Some (CHR 0x09)
      else if c = CHR ''v'' then Some (CHR 0x0B)
      else if c = backslash then Some backslash
      else None)"

text \<open>
  One escape: \<open>c\<close> is the character behind the backslash and \<open>s\<close> the input behind
  \<open>c\<close>. The result is the items of the escape and how many characters of \<open>s\<close> it
  took, or \<open>None\<close> where the compiler raises.
\<close>

definition template_escape :: "char \<Rightarrow> string \<Rightarrow> (repl_item list \<times> nat) option" where
  "template_escape c s =
     (if c = CHR ''g'' then
        (case s of
           [] \<Rightarrow> None
         | lt # s' \<Rightarrow>
             if lt \<noteq> CHR ''<'' then None
             else let name = takeWhile (\<lambda>x. x \<noteq> CHR ''>'') s' in
               if length name = length s' \<or> name = [] then None
               else if list_all is_digit name \<and> list_all (\<lambda>x. x = CHR ''0'') name
                 then Some ([Group0], length name + 2)
               else None)
      else if c = CHR ''0'' then
        (case s of
           d # e # _ \<Rightarrow>
             if is_octdigit d \<and> is_octdigit e
               then Some ([Literal (char_of (digit_value d * 8 + digit_value e))], 2)
             else if is_octdigit d then Some ([Literal (char_of (digit_value d))], 1)
             else Some ([Literal (char_of (0::nat))], 0)
         | [d] \<Rightarrow>
             if is_octdigit d then Some ([Literal (char_of (digit_value d))], 1)
             else Some ([Literal (char_of (0::nat))], 0)
         | [] \<Rightarrow> Some ([Literal (char_of (0::nat))], 0))
      else if is_digit c then
        (case s of
           d # e # _ \<Rightarrow>
             if is_octdigit c \<and> is_octdigit d \<and> is_octdigit e then
               (let v = digit_value c * 64 + digit_value d * 8 + digit_value e in
                  if v > 255 then None else Some ([Literal (char_of v)], 2))
             else None
         | _ \<Rightarrow> None)
      else
        (case escapes c of
           Some x \<Rightarrow> Some ([Literal x], 0)
         | None \<Rightarrow> if is_ascii_letter c then None else Some ([Literal backslash, Literal c], 0)))"

fun parse_template :: "string \<Rightarrow> repl_item list option" where
  "parse_template [] = Some []"
| "parse_template (c # s) =
     (if c \<noteq> backslash then map_option (Cons (Literal c)) (parse_template s)
      else
        (case s of
           [] \<Rightarrow> None
         | d # s' \<Rightarrow>
             (case template_escape d s' of
                None \<Rightarrow> None
              | Some (items, k) \<Rightarrow> map_option (append items) (parse_template (drop k s')))))"

definition expand_template :: "repl_item list \<Rightarrow> string \<Rightarrow> string" where
  "expand_template items m =
     concat (map (\<lambda>i. case i of Literal c \<Rightarrow> [c] | Group0 \<Rightarrow> m) items)"

text \<open>
  The replacement as a function of the matched text; \<open>None\<close> where compiling the
  template raises, which happens before the search starts.
\<close>

definition compile_repl :: "string \<Rightarrow> (string \<Rightarrow> string) option" where
  "compile_repl repl =
     (if backslash \<notin> set repl then Some (\<lambda>m. repl)
      else map_option expand_template (parse_template repl))"

definition piece_text :: "(string \<Rightarrow> string) \<Rightarrow> piece \<Rightarrow> string" where
  "piece_text template p = (case p of Kept c \<Rightarrow> [c] | Matched m \<Rightarrow> template m)"

definition is_match :: "piece \<Rightarrow> bool" where
  "is_match p = (case p of Kept c \<Rightarrow> False | Matched m \<Rightarrow> True)"

text \<open>\<open>re.subn(pattern, repl, text)\<close> for the pattern of \<open>old_word\<close>.\<close>

definition re_subn :: "string \<Rightarrow> string \<Rightarrow> string \<Rightarrow> (string \<times> nat) option" where
  "re_subn old_word repl text =
     (case compile_repl repl of
        None \<Rightarrow> None
      | Some template \<Rightarrow>
          let pieces = re_scan old_word None text
          in Some (concat (map (piece_text template) pieces), length (filter is_match pieces)))"

subsection \<open>replace_word\<close>

datatype failure =
    Raised  \<comment> \<open>an exception that nothing catches\<close>
  | SystemExit string  \<comment> \<open>the message printed before \<open>sys.exit(1)\<close>\<close>

definition replace_word :: "string \<Rightarrow> string \<Rightarrow> string \<Rightarrow> failure + (string \<times> nat)" where
  "replace_word text old_word new_word =
     (case re_subn old_word new_word text of
        None \<Rightarrow> Inl Raised
      | Some (updated_text, count) \<Rightarrow> Inr (updated_text, count))"

section \<open>Dispatcher\<close>

text \<open>
  The file system as the program sees it: what opening a path for reading gives (the
  text that \<open>read()\<close> returns, or the error), and the message of the \<open>IOError\<close> for
  the paths that cannot be written.
\<close>

datatype read_result = Content string | FileNotFoundError | IOError string

record filesystem =
  open_read :: "string \<Rightarrow> read_result"
  write_error :: "string \<Rightarrow> string option"

definition write_file :: "filesystem \<Rightarrow> string \<Rightarrow> string \<Rightarrow> filesystem" where
  "write_file fs path text = fs\<lparr>open_read := (open_read fs)(path := Content text)\<rparr>"

text \<open>
  The \<open>argparse.Namespace\<close> of \<open>main\<close>: the three \<open>store_true\<close> flags, and \<open>None\<close>
  for each of \<open>--find\<close>, \<open>--replace\<close> and \<open>--word-frequency\<close> that was not given.
\<close>

record namespace =
  word_count :: bool
  char_count :: bool
  line_count :: bool
  find_arg :: "string option"
  replace_arg :: "(string \<times> string) option"
  word_frequency :: "int option"

text \<open>The decimal digits of a count, as an f-string prints them.\<close>

fun str_nat :: "nat \<Rightarrow> string" where
  "str_nat n =
     (if n < 10 then [char_of (48 + n)] else str_nat (n div 10) @ [char_of (48 + n mod 10)])"

declare str_nat.simps [simp del]

definition apostrophe :: char where
  "apostrophe = CHR 0x27"

text \<open>\<open>frequency[args.find]\<close>\<close>

definition dict_get :: "(string \<times> nat) list \<Rightarrow> string \<Rightarrow> failure + nat" where
  "dict_get d k = (case map_of d k of None \<Rightarrow> Inl Raised | Some v \<Rightarrow> Inr v)"

text \<open>The loop over \<open>top_words\<close>.\<close>

fun append_top_words :: "string list \<Rightarrow> (string \<times> nat) list \<Rightarrow> string list" where
  "append_top_words results [] = results"
| "append_top_words results ((word, freq) # top_words) =
     append_top_words (results @ [''  '' @ word @ '': '' @ str_nat freq]) top_words"

text \<open>
  \<open>process_file\<close> returns the result lines, and the file system as the run leaves it.
  The conditions are Python's truth tests: an empty \<open>--find\<close> word and a
  \<open>--word-frequency\<close> of 0 count as not given.
\<close>

definition process_file ::
  "filesystem \<Rightarrow> string \<Rightarrow> namespace \<Rightarrow> failure + (string list \<times> filesystem)" where
  "process_file fs file_path args =
     (case open_read fs file_path of
        FileNotFoundError \<Rightarrow>
          Inl (SystemExit (''Error: File '' @ [apostrophe] @ file_path @ [apostrophe] @ '' not found.''))
      | IOError e \<Rightarrow>
          Inl (SystemExit (''Error reading file '' @ [apostrophe] @ file_path @ [apostrophe] @ '': '' @ e))
      | Content content \<Rightarrow>
         (let results = [];
              results = (if word_count args
                         then results @ [''Word Count: '' @ str_nat (count_words content)]
                         else results);
              results = (if char_count args
                         then results @ [''Character Count: '' @ str_nat (count_chars content)]
                         else results);
              results = (if line_count args
                         then results @ [''Line Count: '' @ str_nat (count_lines content)]
                         else results)
          in
         (case (case find_arg args of
                  None \<Rightarrow> Inr results
                | Some word \<Rightarrow>
                    if word = [] then Inr results
                    else (case dict_get (find_word content word) word of
                            Inl e \<Rightarrow> Inl e
                          | Inr n \<Rightarrow>
                              Inr (results @ [''The word '' @ [apostrophe] @ word @ [apostrophe] @
                                              '' occurs '' @ str_nat n @ '' times.'']))) of
            Inl e \<Rightarrow> Inl e
          | Inr results \<Rightarrow>
         (case (case replace_arg args of
                  None \<Rightarrow> Inr (results, fs)
                | Some (old_word, new_word) \<Rightarrow>
                    (case replace_word content old_word new_word of
                       Inl e \<Rightarrow> Inl e
                     | Inr (updated_content, replacements) \<Rightarrow>
                         if replacements > 0 then
                           (let new_file_path = ''updated_'' @ file_path in
                              case write_error fs new_file_path of
                                None \<Rightarrow>
                                  Inr (results @
                                         [[apostrophe] @ old_word @ [apostrophe] @
                                          '' was replaced with '' @
                                          [apostrophe] @ new_word @ [apostrophe] @ '' '' @
                                          str_nat replacements @ '' times and saved to '' @
                                          new_file_path],
                                       write_file fs new_file_path updated_content)
                              | Some e \<Rightarrow>
                                  Inr (results @
                                         [''Error writing to file '' @ [apostrophe] @
                                          new_file_path @ [apostrophe] @ '': '' @ e],
                                       fs))
                         else
                           Inr (results @
                                  [[apostrophe] @ old_word @ [apostrophe] @
                                   '' was not found in the file.''],
                                fs))) of
            Inl e \<Rightarrow> Inl e
          | Inr (results, fs') \<Rightarrow>
              (case word_frequency args of
                 None \<Rightarrow> Inr (results, fs')
               | Some n \<Rightarrow>
                   if n = 0 then Inr (results, fs')
                   else
                     (let top_words = get_word_frequency content n;
                          results = results @ [''Top words by frequency:'']
                      in Inr (append_top_words results top_words, fs')))))))"

text \<open>
  \<open>main\<close>: the parser stores each option of the command line in the namespace, a
  later value of an option replacing an earlier one, and the lines that
  \<open>process_file\<close> returns are printed in their order. The options are given here as
  they are recognised, \<open>-f\<close> apart.
\<close>

datatype cli_option =
    Opt_word_count
  | Opt_char_count
  | Opt_line_count
  | Opt_find string
  | Opt_replace string string
  | Opt_word_frequency int

definition no_options :: namespace where
  "no_options =
     \<lparr>word_count = False, char_count = False, line_count = False,
      find_arg = None, replace_arg = None, word_frequency = None\<rparr>"

fun store_option :: "namespace \<Rightarrow> cli_option \<Rightarrow> namespace" where
  "store_option ns Opt_word_count = ns\<lparr>word_count := True\<rparr>"
| "store_option ns Opt_char_count = ns\<lparr>char_count := True\<rparr>"
| "store_option ns Opt_line_count = ns\<lparr>line_count := True\<rparr>"
| "store_option ns (Opt_find word) = ns\<lparr>find_arg := Some word\<rparr>"
| "store_option ns (Opt_replace old_word new_word) = ns\<lparr>replace_arg := Some (old_word, new_word)\<rparr>"
| "store_option ns (Opt_word_frequency n) = ns\<lparr>word_frequency := Some n\<rparr>"



section \<open>Notions used in the statements\<close>

text \<open>The text a piece was cut from, and the text a list of pieces was cut from.\<close>

definition piece_source :: "piece \<Rightarrow> string" where
  "piece_source p = (case p of Kept c \<Rightarrow> [c] | Matched m \<Rightarrow> m)"

definition source_text :: "piece list \<Rightarrow> string" where
  "source_text ps = concat (map piece_source ps)"

text \<open>The character before a position that lies behind \<open>s\<close>, when \<open>prev\<close> is before \<open>s\<close>.\<close>

definition last_char :: "char option \<Rightarrow> string \<Rightarrow> char option" where
  "last_char prev s = (if s = [] then prev else Some (last s))"


text \<open>The lines of each operation, taken alone.\<close>

definition word_count_lines :: "namespace \<Rightarrow> string \<Rightarrow> string list" where
  "word_count_lines args content =
     (if word_count args then [''Word Count: '' @ str_nat (count_words content)] else [])"

definition char_count_lines :: "namespace \<Rightarrow> string \<Rightarrow> string list" where
  "char_count_lines args content =
     (if char_count args then [''Character Count: '' @ str_nat (count_chars content)] else [])"

definition line_count_lines :: "namespace \<Rightarrow> string \<Rightarrow> string list" where
  "line_count_lines args content =
     (if line_count args then [''Line Count: '' @ str_nat (count_lines content)] else [])"

definition find_lines :: "namespace \<Rightarrow> string \<Rightarrow> string list" where
  "find_lines args content =
     (case find_arg args of
        None \<Rightarrow> []
      | Some word \<Rightarrow>
          if word = [] then []
          else [''The word '' @ [apostrophe] @ word @ [apostrophe] @ '' occurs '' @
                str_nat (count_list (re_findall_w (str_lower content)) (str_lower word)) @
                '' times.''])"

definition not_found_line :: "string \<Rightarrow> string" where
  "not_found_line old_word = [apostrophe] @ old_word @ [apostrophe] @ '' was not found in the file.''"

definition replace_outcome ::
  "filesystem \<Rightarrow> string \<Rightarrow> namespace \<Rightarrow> string \<Rightarrow> failure + (string list \<times> filesystem)" where
  "replace_outcome fs file_path args content =
     (case replace_arg args of
        None \<Rightarrow> Inr ([], fs)
      | Some (old_word, new_word) \<Rightarrow>
          (case replace_word content old_word new_word of
             Inl e \<Rightarrow> Inl e
           | Inr (updated_content, replacements) \<Rightarrow>
               if replacements = 0 then Inr ([not_found_line old_word], fs)
               else
                 (case write_error fs (''updated_'' @ file_path) of
                    None \<Rightarrow>
                      Inr ([[apostrophe] @ old_word @ [apostrophe] @ '' was replaced with '' @
                            [apostrophe] @ new_word @ [apostrophe] @ '' '' @
                            str_nat replacements @ '' times and saved to '' @
                            ''updated_'' @ file_path],
                           write_file fs (''updated_'' @ file_path) updated_content)
                  | Some e \<Rightarrow>
                      Inr ([''Error writing to file '' @ [apostrophe] @ ''updated_'' @ file_path @
                            [apostrophe] @ '': '' @ e],
                           fs))))"

definition replace_lines :: "filesystem \<Rightarrow> string \<Rightarrow> namespace \<Rightarrow> string \<Rightarrow> string list" where
  "replace_lines fs file_path args content =
     (case replace_outcome fs file_path args content of Inl e \<Rightarrow> [] | Inr (lines, fs') \<Rightarrow> lines)"

definition frequency_line :: "string \<times> nat \<Rightarrow> string" where
  "frequency_line p = ''  '' @ fst p @ '': '' @ str_nat (snd p)"

definition word_frequency_lines :: "namespace \<Rightarrow> string \<Rightarrow> string list" where
  "word_frequency_lines args content =
     (case word_frequency args of
        None \<Rightarrow> []
      | Some n \<Rightarrow>
          if n = 0 then []
          else ''Top words by frequency:'' # map frequency_line (get_word_frequency content n))"

text \<open>A file system with one file, for the examples.\<close>

definition example_fs :: filesystem where
  "example_fs =
     \<lparr>open_read = (\<lambda>path. if path = ''a.txt'' then Content ''The cat sat. The end'' else FileNotFoundError),
      write_error = (\<lambda>path. None)\<rparr>"

section \<open>Properties of the tokenizer and the counters\<close>

lemma re_findall_w_Nil: "re_findall_w [] = []"
  by (simp add: re_findall_w.simps)

lemma re_findall_w_skip: "\<not> is_word_char c \<Longrightarrow> re_findall_w (c # s) = re_findall_w s"
  by (subst (1 2) re_findall_w.simps) simp

lemma re_findall_w_word:
  "is_word_char c \<Longrightarrow>
   re_findall_w (c # s) = (c # takeWhile is_word_char s) # re_findall_w (dropWhile is_word_char s)"
  by (subst re_findall_w.simps) simp

lemma token_chars:
  "w \<in> set (re_findall_w s) \<Longrightarrow> w \<noteq> [] \<and> set w \<subseteq> set s \<and> (\<forall>c\<in>set w. is_word_char c)"
proof (induction s arbitrary: w rule: length_induct)
  case (1 s)
  show ?case
  proof (cases s)
    case Nil
    with 1 show ?thesis by (simp add: re_findall_w_Nil)
  next
    case (Cons c cs)
    show ?thesis
    proof (cases "is_word_char c")
      case False
      with 1 Cons show ?thesis by (auto simp: re_findall_w_skip)
    next
      case True
      from 1(2) Cons True consider "w = c # takeWhile is_word_char cs"
        | "w \<in> set (re_findall_w (dropWhile is_word_char cs))"
        by (auto simp: re_findall_w_word)
      then show ?thesis
      proof cases
        case 1
        then show ?thesis using True Cons by (auto dest: set_takeWhileD)
      next
        case 2
        have "length (dropWhile is_word_char cs) < length s"
          using Cons length_dropWhile_le [of is_word_char cs] by simp
        with 1(1) 2 have "w \<noteq> [] \<and> set w \<subseteq> set (dropWhile is_word_char cs) \<and> (\<forall>c\<in>set w. is_word_char c)"
          by blast
        then show ?thesis using Cons set_dropWhileD [of _ is_word_char cs] by auto
      qed
    qed
  qed
qed


lemma char_lower_idem: "char_lower (char_lower c) = char_lower c"
  unfolding char_lower_def code_point_def Let_def by auto

lemma is_word_char_lower: "is_word_char (char_lower c) = is_word_char c"
  unfolding is_word_char_def char_lower_def code_point_def Let_def by auto

lemma str_lower_token: "w \<in> set (re_findall_w (str_lower s)) \<Longrightarrow> str_lower w = w"
proof -
  assume "w \<in> set (re_findall_w (str_lower s))"
  then have "set w \<subseteq> char_lower ` set s"
    using token_chars [of w "str_lower s"] by (simp add: str_lower_def)
  then have "\<forall>c\<in>set w. char_lower c = c"
    by (auto simp: char_lower_idem)
  then show ?thesis
    by (simp add: str_lower_def map_idI)
qed

lemma counter_get_add:
  "counter_get (counter_add w c) v = (if v = w then Suc (counter_get c v) else counter_get c v)"
  by (induction w c rule: counter_add.induct) (auto simp: counter_get_def)

lemma keys_counter_add: "fst ` set (counter_add w c) = insert w (fst ` set c)"
  by (induction w c rule: counter_add.induct) auto

lemma distinct_counter_add: "distinct (map fst c) \<Longrightarrow> distinct (map fst (counter_add w c))"
  by (induction w c rule: counter_add.induct) (auto simp: keys_counter_add)

lemma counter_get_foldl:
  "counter_get (foldl (\<lambda>c w. counter_add w c) c ws) v = counter_get c v + count_list ws v"
  by (induction ws arbitrary: c) (auto simp: counter_get_add)

lemma keys_foldl:
  "fst ` set (foldl (\<lambda>c w. counter_add w c) c ws) = fst ` set c \<union> set ws"
  by (induction ws arbitrary: c) (auto simp: keys_counter_add)

lemma distinct_foldl:
  "distinct (map fst c) \<Longrightarrow> distinct (map fst (foldl (\<lambda>c w. counter_add w c) c ws))"
  by (induction ws arbitrary: c) (auto simp: distinct_counter_add)

lemma counter_get_Nil: "counter_get [] v = 0"
  by (simp add: counter_get_def)

lemma counter_get_Counter: "counter_get (Counter ws) v = count_list ws v"
  by (simp add: Counter_def counter_get_foldl counter_get_Nil)

lemma keys_Counter: "fst ` set (Counter ws) = set ws"
  by (simp add: Counter_def keys_foldl)

lemma distinct_Counter: "distinct (map fst (Counter ws))"
  by (simp add: Counter_def distinct_foldl)

lemma Counter_entry: "(w, k) \<in> set (Counter ws) \<Longrightarrow> k = count_list ws w \<and> w \<in> set ws"
proof -
  assume a: "(w, k) \<in> set (Counter ws)"
  then have "map_of (Counter ws) w = Some k"
    using distinct_Counter by simp
  then have "counter_get (Counter ws) w = k" by (simp add: counter_get_def)
  moreover have "w \<in> set ws" using a keys_Counter [of ws] by force
  ultimately show ?thesis by (simp add: counter_get_Counter)
qed


lemma set_most_common: "set (most_common n c) \<subseteq> set c"
  unfolding most_common_def using set_take_subset [of "nat n" "sort_key (\<lambda>(w, k). - int k) c"] by simp





lemma count_list_zero: "x \<notin> set xs \<Longrightarrow> count_list xs x = 0"
  by (induction xs) auto

lemma count_list_pos: "x \<in> set xs \<Longrightarrow> 0 < count_list xs x"
  by (induction xs) auto



text \<open>
  Claim C10. Every word that \<open>get_word_frequency\<close> returns is its own lower-casing,
  whatever the casing of the text, and so is every token that \<open>count_words\<close> and
  \<open>find_word\<close> count: all three tokenize the lower-cased text.
\<close>

theorem lowercase_tokens:
  "(\<forall>(w, k) \<in> set (get_word_frequency T n). str_lower w = w) \<and>
   (\<forall>w \<in> set (re_findall_w (str_lower T)). str_lower w = w)"
proof -
  have "str_lower w = w" if "(w, k) \<in> set (get_word_frequency T n)" for w k
  proof -
    from that have "(w, k) \<in> set (Counter (re_findall_w (str_lower T)))"
      using set_most_common by (auto simp: get_word_frequency_def)
    then have "w \<in> set (re_findall_w (str_lower T))"
      by (simp add: Counter_entry)
    then show ?thesis by (rule str_lower_token)
  qed
  then show ?thesis
    by (auto simp: str_lower_token)
qed

theorem lowercase_tokens_witness:
  "(''the'', 2) \<in> set (get_word_frequency ''The CAT sat. THE end'' 2) \<and> str_lower ''the'' = ''the'' \<and>
   ''cat'' \<in> set (re_findall_w (str_lower ''The CAT sat. THE end'')) \<and> str_lower ''cat'' = ''cat''"
proof -
  have a: "get_word_frequency ''The CAT sat. THE end'' 2 = [(''the'', 2), (''cat'', 1)]"
    by code_simp
  have b: "re_findall_w (str_lower ''The CAT sat. THE end'') = [''the'', ''cat'', ''sat'', ''the'', ''end'']"
    by code_simp
  show ?thesis
    using lowercase_tokens [of "''The CAT sat. THE end''" 2] unfolding a b by simp
qed

text \<open>
  Claim C7. \<open>find_word\<close> reports, under the word as it was given, how often the
  lower-cased word occurs among the tokens of the text, and reading that entry never
  fails. Two words that differ only in casing get the same count. The count is 0 when
  the word does not occur, in particular when it has a non-word character.
\<close>

theorem find_word_count:
  "find_word T W = [(W, count_list (re_findall_w (str_lower T)) (str_lower W))] \<and>
   dict_get (find_word T W) W = Inr (count_list (re_findall_w (str_lower T)) (str_lower W)) \<and>
   (str_lower W' = str_lower W \<longrightarrow> map snd (find_word T W') = map snd (find_word T W)) \<and>
   (str_lower W \<notin> set (re_findall_w (str_lower T)) \<longrightarrow> find_word T W = [(W, 0)]) \<and>
   ((\<exists>c\<in>set W. \<not> is_word_char c) \<longrightarrow> find_word T W = [(W, 0)])"
proof -
  have eq: "find_word T W = [(W, count_list (re_findall_w (str_lower T)) (str_lower W))]" for W
    by (simp add: find_word_def counter_get_Counter)
  have absent: "str_lower W \<notin> set (re_findall_w (str_lower T))" if "\<exists>c\<in>set W. \<not> is_word_char c"
  proof
    assume "str_lower W \<in> set (re_findall_w (str_lower T))"
    then have "\<forall>c\<in>set (str_lower W). is_word_char c"
      using token_chars by blast
    then have "\<forall>c\<in>set W. is_word_char c"
      by (simp add: str_lower_def is_word_char_lower)
    with that show False by blast
  qed
  show ?thesis
    using absent by (simp add: eq dict_get_def count_list_zero)
qed

theorem find_word_count_witness:
  "str_lower ''CAT'' = str_lower ''cat'' \<and>
   map snd (find_word ''A cat, a Cat.'' ''CAT'') = map snd (find_word ''A cat, a Cat.'' ''cat'') \<and>
   find_word ''A cat, a Cat.'' ''cat'' = [(''cat'', 2)] \<and>
   str_lower ''dog'' \<notin> set (re_findall_w (str_lower ''A cat, a Cat.'')) \<and>
   find_word ''A cat, a Cat.'' ''dog'' = [(''dog'', 0)] \<and>
   (\<exists>c\<in>set ''a cat''. \<not> is_word_char c) \<and>
   find_word ''A cat, a Cat.'' ''a cat'' = [(''a cat'', 0)]"
proof -
  have h1: "str_lower ''CAT'' = str_lower ''cat''"
    by code_simp
  have h2: "str_lower ''dog'' \<notin> set (re_findall_w (str_lower ''A cat, a Cat.''))"
    by code_simp
  have h3: "\<exists>c\<in>set ''a cat''. \<not> is_word_char c"
    by code_simp
  have v: "count_list (re_findall_w (str_lower ''A cat, a Cat.'')) (str_lower ''cat'') = 2"
    by code_simp
  have c1: "map snd (find_word ''A cat, a Cat.'' ''CAT'') = map snd (find_word ''A cat, a Cat.'' ''cat'')"
    using find_word_count [of "''A cat, a Cat.''" "''cat''" "''CAT''"] h1 by blast
  have c2: "find_word ''A cat, a Cat.'' ''cat'' = [(''cat'', 2)]"
    using find_word_count [of "''A cat, a Cat.''" "''cat''" "''CAT''"] unfolding v by blast
  have c3: "find_word ''A cat, a Cat.'' ''dog'' = [(''dog'', 0)]"
    using find_word_count [of "''A cat, a Cat.''" "''dog''" "''dog''"] h2 by blast
  have c4: "find_word ''A cat, a Cat.'' ''a cat'' = [(''a cat'', 0)]"
    using find_word_count [of "''A cat, a Cat.''" "''a cat''" "''a cat''"] h3 by blast
  from h1 h2 h3 c1 c2 c3 c4 show ?thesis by blast
qed



section \<open>Properties of the scan\<close>

lemma match_here_length: "match_here old prev s \<Longrightarrow> length old \<le> length s"
proof -
  assume "match_here old prev s"
  then have "map char_lower (take (length old) s) = map char_lower old"
    by (simp add: match_here_def Let_def)
  then have "length (take (length old) s) = length old"
    by (metis length_map)
  then show ?thesis by simp
qed

lemma match_here_lower:
  "match_here old prev s \<Longrightarrow> map char_lower (take (length old) s) = map char_lower old"
  by (simp add: match_here_def Let_def)

lemma re_scan_Nil:
  "re_scan old prev [] = (if match_here old prev [] then [Matched []] else [])"
  by simp

lemma re_scan_keep:
  "\<not> match_here old prev (c # cs) \<Longrightarrow> re_scan old prev (c # cs) = Kept c # re_scan old (Some c) cs"
  by simp

lemma re_scan_empty:
  "match_here [] prev (c # cs) \<Longrightarrow>
   re_scan [] prev (c # cs) = Matched [] # Kept c # re_scan [] (Some c) cs"
  by simp

lemma re_scan_match:
  assumes "old \<noteq> []" and "match_here old prev s"
  shows "re_scan old prev s =
         Matched (take (length old) s) #
         re_scan old (Some (last (take (length old) s))) (drop (length old) s)"
proof (cases s)
  case Nil
  with assms match_here_length [of old prev s] show ?thesis by simp
next
  case (Cons c cs)
  from assms(1) have "drop (length old - 1) cs = drop (length old) (c # cs)"
    by (cases old) simp_all
  with assms Cons show ?thesis by (simp del: take_Suc_Cons drop_Suc_Cons)
qed

declare re_scan.simps [simp del]

lemma source_text_simps:
  "source_text [] = []"
  "source_text (Kept c # ps) = c # source_text ps"
  "source_text (Matched m # ps) = m @ source_text ps"
  "source_text (ps @ qs) = source_text ps @ source_text qs"
  by (simp_all add: source_text_def piece_source_def)

lemma source_re_scan: "source_text (re_scan old prev s) = s"
proof (induction s arbitrary: prev rule: length_induct)
  case (1 s)
  show ?case
  proof (cases s)
    case Nil
    then show ?thesis by (simp add: re_scan_Nil source_text_simps)
  next
    case (Cons c cs)
    show ?thesis
    proof (cases "match_here old prev s")
      case False
      with Cons 1 show ?thesis by (simp add: re_scan_keep source_text_simps)
    next
      case True
      show ?thesis
      proof (cases "old = []")
        case True
        with \<open>match_here old prev s\<close> Cons 1 show ?thesis
          by (simp add: re_scan_empty source_text_simps)
      next
        case False
        then have "length (drop (length old) s) < length s"
          using Cons by simp
        with 1 have "source_text (re_scan old (Some (last (take (length old) s))) (drop (length old) s))
                     = drop (length old) s"
          by blast
        with True False show ?thesis
          by (simp add: re_scan_match source_text_simps)
      qed
    qed
  qed
qed

lemma matched_pieces:
  "Matched m \<in> set (re_scan old prev s) \<Longrightarrow> map char_lower m = map char_lower old"
proof (induction s arbitrary: prev rule: length_induct)
  case (1 s)
  show ?case
  proof (cases "match_here old prev s")
    case False
    show ?thesis
    proof (cases s)
      case Nil
      with False 1(2) show ?thesis by (simp add: re_scan_Nil)
    next
      case (Cons c cs)
      with False 1(2) have "Matched m \<in> set (re_scan old (Some c) cs)"
        by (simp add: re_scan_keep)
      with 1(1) Cons show ?thesis by auto
    qed
  next
    case True
    show ?thesis
    proof (cases "old = []")
      case True
      show ?thesis
      proof (cases s)
        case Nil
        with \<open>old = []\<close> 1(2) show ?thesis by (simp add: re_scan_Nil split: if_splits)
      next
        case (Cons c cs)
        with \<open>match_here old prev s\<close> True 1(2)
        have "m = [] \<or> Matched m \<in> set (re_scan old (Some c) cs)"
          by (auto simp: re_scan_empty)
        with 1(1) Cons True show ?thesis by auto
      qed
    next
      case False
      with True have s: "s \<noteq> []"
        using match_here_length [of old prev s] by auto
      with False have "length (drop (length old) s) < length s"
        by simp
      moreover from True False 1(2)
      have "m = take (length old) s \<or>
            Matched m \<in> set (re_scan old (Some (last (take (length old) s))) (drop (length old) s))"
        by (simp add: re_scan_match)
      ultimately show ?thesis
        using 1(1) match_here_lower [OF True] by blast
    qed
  qed
qed

lemma piece_text_kept: "\<not> is_match p \<Longrightarrow> piece_text t p = piece_source p"
  by (cases p) (simp_all add: piece_text_def piece_source_def is_match_def)

lemma no_match_text:
  "filter is_match ps = [] \<Longrightarrow> concat (map (piece_text t) ps) = source_text ps"
  by (induction ps) (auto simp: source_text_def piece_text_kept split: if_splits)

lemma last_char_simps:
  "last_char prev [] = prev"
  "last_char prev (c # s) = last_char (Some c) s"
  "w \<noteq> [] \<Longrightarrow> last_char prev (w @ s) = last_char (Some (last w)) s"
  by (simp_all add: last_char_def)

lemma re_scan_anchored:
  "re_scan old prev s = ps @ Matched m # qs \<Longrightarrow>
   s = source_text ps @ m @ source_text qs \<and>
   match_here old (last_char prev (source_text ps)) (m @ source_text qs)"
proof (induction s arbitrary: prev ps rule: length_induct)
  case (1 s)
  note IH = 1(1) and scan = 1(2)
  have src: "source_text ps @ m @ source_text qs = s"
    using source_re_scan [of old prev s] scan by (simp add: source_text_simps)
  show ?case
  proof (cases "match_here old prev s")
    case False
    show ?thesis
    proof (cases s)
      case Nil
      with False scan show ?thesis by (simp add: re_scan_Nil)
    next
      case (Cons c cs)
      with False scan have "Kept c # re_scan old (Some c) cs = ps @ Matched m # qs"
        by (simp add: re_scan_keep)
      then obtain ps' where ps: "ps = Kept c # ps'" and r: "re_scan old (Some c) cs = ps' @ Matched m # qs"
        by (cases ps) auto
      from IH Cons r
      have "match_here old (last_char (Some c) (source_text ps')) (m @ source_text qs)"
        by auto
      with src show ?thesis
        by (simp add: ps source_text_simps last_char_simps)
    qed
  next
    case True
    show ?thesis
    proof (cases "ps = []")
      case True
      with scan have hd: "re_scan old prev s = Matched m # qs" by simp
      have "m = take (length old) s"
      proof (cases "old = []")
        case True
        with hd \<open>match_here old prev s\<close> show ?thesis
          by (cases s) (auto simp: re_scan_Nil re_scan_empty)
      next
        case False
        with hd \<open>match_here old prev s\<close> show ?thesis
          by (simp add: re_scan_match)
      qed
      with \<open>match_here old prev s\<close> src True show ?thesis
        by (simp add: source_text_simps last_char_simps)
    next
      case False
      show ?thesis
      proof (cases "old = []")
        case True
        show ?thesis
        proof (cases s)
          case Nil
          with scan \<open>ps \<noteq> []\<close> show ?thesis
            by (cases ps) (auto simp: re_scan_Nil split: if_splits)
        next
          case (Cons c cs)
          with True \<open>match_here old prev s\<close> scan
          have "Matched [] # Kept c # re_scan old (Some c) cs = ps @ Matched m # qs"
            by (simp add: re_scan_empty)
          with \<open>ps \<noteq> []\<close> obtain ps' where ps: "ps = Matched [] # Kept c # ps'"
            and r: "re_scan old (Some c) cs = ps' @ Matched m # qs"
            by (cases ps; cases "tl ps") auto
          from IH Cons r
          have "match_here old (last_char (Some c) (source_text ps')) (m @ source_text qs)"
            by auto
          with src show ?thesis
            by (simp add: ps source_text_simps last_char_simps)
        qed
      next
        case False
        let ?w = "take (length old) s"
        from False \<open>match_here old prev s\<close> have s: "s \<noteq> []"
          using match_here_length [of old prev s] by auto
        with False have short: "length (drop (length old) s) < length s" and w: "?w \<noteq> []"
          by simp_all
        from False \<open>match_here old prev s\<close> scan
        have "Matched ?w # re_scan old (Some (last ?w)) (drop (length old) s) = ps @ Matched m # qs"
          by (simp add: re_scan_match)
        with \<open>ps \<noteq> []\<close> obtain ps' where ps: "ps = Matched ?w # ps'"
          and r: "re_scan old (Some (last ?w)) (drop (length old) s) = ps' @ Matched m # qs"
          by (cases ps) auto
        from IH short r
        have "match_here old (last_char (Some (last ?w)) (source_text ps')) (m @ source_text qs)"
          by blast
        with src w show ?thesis
          by (simp add: ps source_text_simps last_char_simps)
      qed
    qed
  qed
qed

section \<open>Properties of the dispatcher and of replace_word\<close>

lemma dict_get_find_word:
  "dict_get (find_word content word) word =
   Inr (count_list (re_findall_w (str_lower content)) (str_lower word))"
  by (simp add: dict_get_def find_word_def counter_get_Counter)

lemma append_top_words_map:
  "append_top_words results top_words = results @ map frequency_line top_words"
  by (induction results top_words rule: append_top_words.induct) (simp_all add: frequency_line_def)

lemma count_lines_prefix:
  "(let results = [];
        results = (if word_count args then results @ [a] else results);
        results = (if char_count args then results @ [b] else results);
        results = (if line_count args then results @ [c] else results)
    in G results) =
   G ((if word_count args then [a] else []) @ (if char_count args then [b] else []) @
      (if line_count args then [c] else []))"
  by (simp add: Let_def)

lemma find_step:
  "(case find_arg args of
      None \<Rightarrow> Inr results
    | Some word \<Rightarrow>
        if word = [] then Inr results
        else (case dict_get (find_word content word) word of
                Inl e \<Rightarrow> Inl e
              | Inr n \<Rightarrow>
                  Inr (results @ [''The word '' @ [apostrophe] @ word @ [apostrophe] @
                                  '' occurs '' @ str_nat n @ '' times.'']))) =
   Inr (results @ find_lines args content)"
  by (simp add: find_lines_def dict_get_find_word split: option.split)

lemma replace_step:
  "(case replace_arg args of
      None \<Rightarrow> Inr (results, fs)
    | Some (old_word, new_word) \<Rightarrow>
        (case replace_word content old_word new_word of
           Inl e \<Rightarrow> Inl e
         | Inr (updated_content, replacements) \<Rightarrow>
             if replacements > 0 then
               (let new_file_path = ''updated_'' @ file_path in
                  case write_error fs new_file_path of
                    None \<Rightarrow>
                      Inr (results @
                             [[apostrophe] @ old_word @ [apostrophe] @
                              '' was replaced with '' @
                              [apostrophe] @ new_word @ [apostrophe] @ '' '' @
                              str_nat replacements @ '' times and saved to '' @
                              new_file_path],
                           write_file fs new_file_path updated_content)
                  | Some e \<Rightarrow>
                      Inr (results @
                             [''Error writing to file '' @ [apostrophe] @
                              new_file_path @ [apostrophe] @ '': '' @ e],
                           fs))
             else
               Inr (results @
                      [[apostrophe] @ old_word @ [apostrophe] @
                       '' was not found in the file.''],
                    fs))) =
   (case replace_outcome fs file_path args content of
      Inl e \<Rightarrow> Inl e
    | Inr (lines, fs') \<Rightarrow> Inr (results @ lines, fs'))"
  by (simp add: replace_outcome_def not_found_line_def Let_def
      split: option.split sum.split prod.split)

lemma frequency_step:
  "(case word_frequency args of
      None \<Rightarrow> Inr (results, fs')
    | Some n \<Rightarrow>
        if n = 0 then Inr (results, fs')
        else
          (let top_words = get_word_frequency content n;
               results = results @ [''Top words by frequency:'']
           in Inr (append_top_words results top_words, fs'))) =
   Inr (results @ word_frequency_lines args content, fs')"
  by (simp add: word_frequency_lines_def append_top_words_map Let_def split: option.split)

lemma process_file_Content:
  assumes "open_read fs file_path = Content content"
  shows "process_file fs file_path args =
         (case replace_outcome fs file_path args content of
            Inl e \<Rightarrow> Inl e
          | Inr (lines, fs') \<Rightarrow>
              Inr (word_count_lines args content @ char_count_lines args content @
                   line_count_lines args content @ find_lines args content @ lines @
                   word_frequency_lines args content, fs'))"
proof -
  have "process_file fs file_path args =
        (case replace_outcome fs file_path args content of
            Inl e \<Rightarrow> Inl e
          | Inr (lines, fs') \<Rightarrow>
              Inr ((((word_count_lines args content @ char_count_lines args content @
                   line_count_lines args content) @ find_lines args content) @ lines) @
                   word_frequency_lines args content, fs'))"
    unfolding process_file_def word_count_lines_def char_count_lines_def line_count_lines_def
    by (simp only: assms read_result.case count_lines_prefix find_step replace_step
        frequency_step sum.case)
      (simp split: sum.split)
  then show ?thesis by (simp split: sum.split)
qed

lemma last_char_append: "last_char prev (a @ b) = last_char (last_char prev a) b"
  by (simp add: last_char_def)

lemma match_here_boundaries:
  assumes "match_here old prev (m @ r)" and "length m = length old"
  shows "at_boundary prev (m @ r) \<and> at_boundary (last_char prev m) r"
  using assms by (simp add: match_here_def Let_def last_char_def)

lemma re_subn_compiled:
  "compile_repl new = Some t \<Longrightarrow>
   re_subn old new s =
   Some (concat (map (piece_text t) (re_scan old None s)), length (filter is_match (re_scan old None s)))"
  by (simp add: re_subn_def Let_def)

lemma replace_word_Inr:
  "replace_word s old new = Inr (s', k) \<Longrightarrow>
   \<exists>t. compile_repl new = Some t \<and>
       s' = concat (map (piece_text t) (re_scan old None s)) \<and>
       k = length (filter is_match (re_scan old None s))"
  by (auto simp: replace_word_def re_subn_def Let_def split: option.splits)

lemma replace_word_zero: "replace_word s old new = Inr (s', 0) \<Longrightarrow> s' = s"
proof -
  assume "replace_word s old new = Inr (s', 0)"
  then obtain t where "s' = concat (map (piece_text t) (re_scan old None s))"
    and "filter is_match (re_scan old None s) = []"
    using replace_word_Inr by fastforce
  then show ?thesis
    by (simp add: no_match_text source_re_scan)
qed

lemma replace_word_no_match:
  assumes "filter is_match (re_scan old None s) = []" and "compile_repl new \<noteq> None"
  shows "replace_word s old new = Inr (s, 0)"
proof -
  from assms(2) obtain t where "compile_repl new = Some t" by auto
  then show ?thesis
    using assms(1) by (simp add: replace_word_def re_subn_compiled no_match_text source_re_scan)
qed

text \<open>
  Claim C4. Replacing \<open>cat\<close> by \<open>dog\<close> in \<open>concatenate cats cat\<close> gives
  \<open>concatenate cats dog\<close> and the count 1. In general every match that the scan
  finds is the old word up to letter case, with a word boundary before it and a word
  boundary behind it.
\<close>

theorem replace_word_whole_word:
  "replace_word ''concatenate cats cat'' ''cat'' ''dog'' = Inr (''concatenate cats dog'', 1) \<and>
   (re_scan old_word None s = ps @ Matched m # qs \<longrightarrow>
      s = source_text ps @ m @ source_text qs \<and>
      map char_lower m = map char_lower old_word \<and>
      at_boundary (last_char None (source_text ps)) (m @ source_text qs) \<and>
      at_boundary (last_char None (source_text ps @ m)) (source_text qs))"
proof -
  have ex: "replace_word ''concatenate cats cat'' ''cat'' ''dog'' = Inr (''concatenate cats dog'', 1)"
    by code_simp
  have "s = source_text ps @ m @ source_text qs \<and>
      map char_lower m = map char_lower old_word \<and>
      at_boundary (last_char None (source_text ps)) (m @ source_text qs) \<and>
      at_boundary (last_char None (source_text ps @ m)) (source_text qs)"
    if scan: "re_scan old_word None s = ps @ Matched m # qs"
  proof -
    from scan have "Matched m \<in> set (re_scan old_word None s)" by simp
    then have lower: "map char_lower m = map char_lower old_word"
      by (rule matched_pieces)
    then have len: "length m = length old_word"
      by (metis length_map)
    from re_scan_anchored [OF scan]
    have src: "s = source_text ps @ m @ source_text qs"
      and here: "match_here old_word (last_char None (source_text ps)) (m @ source_text qs)"
      by simp_all
    from match_here_boundaries [OF here len] src lower show ?thesis
      by (simp add: last_char_append)
  qed
  with ex show ?thesis by blast
qed

theorem replace_word_whole_word_witness:
  "re_scan ''cat'' None ''concatenate cats cat'' = map Kept ''concatenate cats '' @ Matched ''cat'' # [] \<and>
   ''concatenate cats cat'' = source_text (map Kept ''concatenate cats '') @ ''cat'' @ source_text [] \<and>
   at_boundary (last_char None (source_text (map Kept ''concatenate cats ''))) (''cat'' @ source_text []) \<and>
   at_boundary (last_char None (source_text (map Kept ''concatenate cats '') @ ''cat'')) (source_text [])"
proof -
  have scan: "re_scan ''cat'' None ''concatenate cats cat'' = map Kept ''concatenate cats '' @ Matched ''cat'' # []"
    by code_simp
  from replace_word_whole_word [of "''cat''" "''concatenate cats cat''" "map Kept ''concatenate cats ''" "''cat''" "[]"] scan
  show ?thesis by blast
qed

text \<open>
  Claim C5. When \<open>replace_word\<close> returns the count 0 the text it returns is the text
  it was given, and it does so whenever the scan finds no match and the replacement
  compiles. The dispatcher then leaves the file system as it was, and the line of the
  replace operation is the \<open>not found\<close> line.
\<close>

theorem zero_match_atomicity:
  "(replace_word s old_word new_word = Inr (s', 0) \<longrightarrow> s' = s) \<and>
   (filter is_match (re_scan old_word None s) = [] \<and> compile_repl new_word \<noteq> None \<longrightarrow>
      replace_word s old_word new_word = Inr (s, 0)) \<and>
   (open_read fs file_path = Content s \<and> replace_arg args = Some (old_word, new_word) \<and>
    replace_word s old_word new_word = Inr (s', 0) \<longrightarrow>
      (\<exists>results. process_file fs file_path args = Inr (results, fs) \<and>
                 not_found_line old_word \<in> set results \<and>
                 replace_lines fs file_path args s = [not_found_line old_word]))"
proof -
  have a: "s' = s" if "replace_word s old_word new_word = Inr (s', 0)"
    using that by (rule replace_word_zero)
  have b: "replace_word s old_word new_word = Inr (s, 0)"
    if "filter is_match (re_scan old_word None s) = []" "compile_repl new_word \<noteq> None"
    using that by (rule replace_word_no_match)
  have c: "\<exists>results. process_file fs file_path args = Inr (results, fs) \<and>
                 not_found_line old_word \<in> set results \<and>
                 replace_lines fs file_path args s = [not_found_line old_word]"
    if "open_read fs file_path = Content s" "replace_arg args = Some (old_word, new_word)"
      "replace_word s old_word new_word = Inr (s', 0)"
  proof -
    from that(2,3) have "replace_outcome fs file_path args s = Inr ([not_found_line old_word], fs)"
      by (simp add: replace_outcome_def)
    with that(1) show ?thesis
      by (simp add: process_file_Content replace_lines_def)
  qed
  from a b c show ?thesis by blast
qed




lemma open_read_example: "open_read example_fs ''a.txt'' = Content ''The cat sat. The end''"
  by (simp add: example_fs_def)



theorem zero_match_atomicity_witness:
  "replace_word ''The cat sat. The end'' ''dog'' ''cow'' = Inr (''The cat sat. The end'', 0) \<and>
   filter is_match (re_scan ''dog'' None ''The cat sat. The end'') = [] \<and>
   compile_repl ''cow'' \<noteq> None \<and>
   open_read example_fs ''a.txt'' = Content ''The cat sat. The end'' \<and>
   replace_arg (no_options\<lparr>replace_arg := Some (''dog'', ''cow'')\<rparr>) = Some (''dog'', ''cow'') \<and>
   (\<exists>results.
      process_file example_fs ''a.txt'' (no_options\<lparr>replace_arg := Some (''dog'', ''cow'')\<rparr>) =
        Inr (results, example_fs) \<and>
      not_found_line ''dog'' \<in> set results)"
proof -
  note t = zero_match_atomicity [of "''The cat sat. The end''" "''dog''" "''cow''"
      "''The cat sat. The end''" example_fs "''a.txt''" "no_options\<lparr>replace_arg := Some (''dog'', ''cow'')\<rparr>"]
  have h1: "filter is_match (re_scan ''dog'' None ''The cat sat. The end'') = []"
    by code_simp
  have h2: "compile_repl ''cow'' \<noteq> None"
    by (simp add: compile_repl_def backslash_def)
  have h3: "replace_arg (no_options\<lparr>replace_arg := Some (''dog'', ''cow'')\<rparr>) = Some (''dog'', ''cow'')"
    by simp
  from t h1 h2 have r: "replace_word ''The cat sat. The end'' ''dog'' ''cow'' = Inr (''The cat sat. The end'', 0)"
    by blast
  from t r h3 open_read_example
  have "\<exists>results.
      process_file example_fs ''a.txt'' (no_options\<lparr>replace_arg := Some (''dog'', ''cow'')\<rparr>) =
        Inr (results, example_fs) \<and>
      not_found_line ''dog'' \<in> set results"
    by blast
  with r h1 h2 h3 open_read_example show ?thesis by blast
qed

section \<open>The order of the result lines\<close>


lemma foldl_store_snoc: "foldl store_option ns (opts @ [x]) = store_option (foldl store_option ns opts) x"
  by simp










end
